theory Spec2Isabelle
  imports Complex_Main
begin

section \<open>Tables\<close>

text \<open>
  The module works on data frames of the table library.  A frame is an ordered sequence of
  named columns over a shared sequence of row labels.  A cell is either missing, an integer
  or a text value; every column carries the storage type the library reports for it.
\<close>

datatype val = NaN | IntV int | StrV string

datatype dtype = Object | Float nat | Signed nat | Unsigned nat

record column =
  cname :: string
  cdtype :: dtype
  cvalues :: "val list"

record frame =
  row_index :: "int list"
  columns :: "column list"

datatype error = KeyError | AttributeError | ValueError | TypeError | ZeroDivisionError | IndexError

definition column_names :: "frame \<Rightarrow> string list" where
  "column_names df = map cname (columns df)"

text \<open>\<^verbatim>\<open>df.shape\<close> is the pair of the row count and the column count.\<close>

definition nrow :: "frame \<Rightarrow> nat" where
  "nrow df = length (row_index df)"

definition ncol :: "frame \<Rightarrow> nat" where
  "ncol df = length (columns df)"

text \<open>
  A frame is well formed when every column has one cell per row label.  Column labels and
  row labels are distinct in the frames the theorems below speak about; the library itself
  tolerates duplicates, and the operations are modelled for them where the behaviour is
  simple (dropping and selecting columns).
\<close>

definition wf_frame :: "frame \<Rightarrow> bool" where
  "wf_frame df =
     (list_all (\<lambda>c. length (cvalues c) = nrow df) (columns df)
      \<and> distinct (column_names df) \<and> distinct (row_index df))"

section \<open>Library operations on columns\<close>

text \<open>
  \<^verbatim>\<open>DataFrame.drop(columns=labels, inplace=...)\<close>: a label that is not a column raises
  \<^verbatim>\<open>KeyError\<close> before anything is changed.  Otherwise every column carrying one of the
  labels is removed.  With \<^verbatim>\<open>inplace=True\<close> the receiver is mutated and the call
  returns \<^verbatim>\<open>None\<close>; with \<^verbatim>\<open>inplace=False\<close> the receiver is untouched and the new
  frame is returned.  The result pairs the returned value with the receiver's state after
  the call.
\<close>

definition without :: "string list \<Rightarrow> column list \<Rightarrow> column list" where
  "without labels cs = filter (\<lambda>c. cname c \<notin> set labels) cs"

definition pd_drop :: "frame \<Rightarrow> string list \<Rightarrow> bool \<Rightarrow> error + (frame option \<times> frame)" where
  "pd_drop df labels inplace =
     (if \<not> set labels \<subseteq> set (column_names df) then Inl KeyError
      else if inplace then Inr (None, df\<lparr>columns := without labels (columns df)\<rparr>)
      else Inr (Some (df\<lparr>columns := without labels (columns df)\<rparr>), df))"

text \<open>
  \<^verbatim>\<open>frame[labels]\<close> with a list of labels: the columns carrying each label, in the order
  the labels are listed; \<^verbatim>\<open>KeyError\<close> when a label is not a column.
\<close>

definition getitem_list :: "frame \<Rightarrow> string list \<Rightarrow> error + frame" where
  "getitem_list df labels =
     (if \<not> set labels \<subseteq> set (column_names df) then Inl KeyError
      else Inr (df\<lparr>columns := concat (map (\<lambda>l. filter (\<lambda>c. cname c = l) (columns df)) labels)\<rparr>))"

section \<open>drop\_columns\<close>

text \<open>
  The function's effects are the state of the caller's frame after the call and the
  messages sent to the logger.  A returned reference is either the caller's own frame
  object (\<open>Orig\<close>) or a newly built frame.  The logged message is represented by the two
  numbers it interpolates: the resulting column count and \<^verbatim>\<open>len(columns)\<close>.
\<close>

datatype ret = Orig | New frame

datatype log_msg = Info_dropped nat nat

record drop_outcome =
  returned :: "error + ret"
  df_after :: frame
  logged :: "log_msg list"

definition drop_columns :: "frame \<Rightarrow> string list \<Rightarrow> bool \<Rightarrow> drop_outcome" where
  "drop_columns df cols inplace =
     (if ncol df = 0 then \<lparr>returned = Inr Orig, df_after = df, logged = []\<rparr>
      else case pd_drop df cols inplace of
        Inl e \<Rightarrow> \<lparr>returned = Inl e, df_after = df, logged = []\<rparr>
      | Inr (res, df') \<Rightarrow>
          (case res of
             None \<Rightarrow> \<lparr>returned = Inl AttributeError, df_after = df', logged = []\<rparr>
           | Some r \<Rightarrow>
               \<lparr>returned = Inr (if inplace then Orig else New r), df_after = df',
                logged = [Info_dropped (ncol r) (length cols)]\<rparr>))"

section \<open>column\_cut\<close>

definition column_cut :: "frame \<Rightarrow> string list \<Rightarrow> error + (frame \<times> frame)" where
  "column_cut fr cols =
     (case getitem_list fr cols of
        Inl e \<Rightarrow> Inl e
      | Inr df1 \<Rightarrow>
          (case pd_drop fr cols False of
             Inl e \<Rightarrow> Inl e
           | Inr (res, _) \<Rightarrow>
               (case res of None \<Rightarrow> Inl AttributeError | Some df2 \<Rightarrow> Inr (df1, df2))))"

section \<open>common\_columns\<close>

text \<open>
  \<^verbatim>\<open>itertools.combinations(xs, 2)\<close>: every pair of elements at increasing positions, in
  lexicographic order of the positions.  The generator is consumed once; the list is the
  sequence of the elements it yields.
\<close>

fun combinations2 :: "'a list \<Rightarrow> ('a \<times> 'a) list" where
  "combinations2 [] = []"
| "combinations2 (x # xs) = map (Pair x) xs @ combinations2 xs"

definition common_columns :: "frame list \<Rightarrow> ((nat \<times> nat) \<times> string set) list" where
  "common_columns dataframes =
     map (\<lambda>((i1, df1), (i2, df2)). ((i1, i2), set (column_names df1) \<inter> set (column_names df2)))
       (combinations2 (enumerate 0 dataframes))"

text \<open>The pairs of positions \<open>i < j\<close> below \<open>n\<close>, from \<open>m\<close> on, in lexicographic order.\<close>

definition index_pairs :: "nat \<Rightarrow> nat \<Rightarrow> (nat \<times> nat) list" where
  "index_pairs m n = concat (map (\<lambda>i. map (Pair i) [Suc i..<n]) [m..<n])"

section \<open>categorize\<close>

text \<open>
  \<^verbatim>\<open>frame[c]\<close> with one label: \<^verbatim>\<open>KeyError\<close> when no column carries the label.  When
  several columns carry it the selection is a frame, not a column, and the factorization
  that follows rejects it.
\<close>

definition getitem :: "frame \<Rightarrow> string \<Rightarrow> error + column" where
  "getitem df c =
     (case filter (\<lambda>k. cname k = c) (columns df) of
        [] \<Rightarrow> Inl KeyError
      | [k] \<Rightarrow> Inr k
      | _ \<Rightarrow> Inl TypeError)"





text \<open>
  \<^verbatim>\<open>astype\<close> on the 64-bit codes: an integer target of \<open>w\<close> bits keeps the low \<open>w\<close> bits
  (two's complement for a signed target); an object or float target keeps the number (the
  rounding of a float target on very large codes is not modelled).
\<close>

fun cast_code :: "dtype \<Rightarrow> int \<Rightarrow> val" where
  "cast_code (Signed w) i = IntV ((i + 2 ^ (w - 1)) mod 2 ^ w - 2 ^ (w - 1))"
| "cast_code (Unsigned w) i = IntV (i mod 2 ^ w)"
| "cast_code Object i = IntV i"
| "cast_code (Float w) i = IntV i"








text \<open>The cell that a code ends up as in the column, after the optional cast.\<close>

definition stored_code :: "dtype option \<Rightarrow> int \<Rightarrow> val" where
  "stored_code dt i = (case dt of None \<Rightarrow> IntV i | Some d \<Rightarrow> cast_code d i)"




section \<open>frame\_info\<close>

text \<open>
  A series is a sequence of labelled values.  The per-column reductions of a frame give one
  value for each column, labelled by the column and in the order of the columns.
\<close>

type_synonym 'a series = "(string \<times> 'a) list"

definition isna_sum :: "frame \<Rightarrow> nat series" where
  "isna_sum df = map (\<lambda>c. (cname c, length (filter (\<lambda>v. v = NaN) (cvalues c)))) (columns df)"

definition pd_count :: "frame \<Rightarrow> nat series" where
  "pd_count df = map (\<lambda>c. (cname c, length (filter (\<lambda>v. v \<noteq> NaN) (cvalues c)))) (columns df)"

definition pd_nunique :: "frame \<Rightarrow> nat series" where
  "pd_nunique df =
     map (\<lambda>c. (cname c, length (remdups (filter (\<lambda>v. v \<noteq> NaN) (cvalues c))))) (columns df)"

definition dtypes :: "frame \<Rightarrow> dtype series" where
  "dtypes df = map (\<lambda>c. (cname c, cdtype c)) (columns df)"

text \<open>
  The true division of the array library on counts: a quotient by zero does not raise, it
  gives \<open>inf\<close> for a positive numerator and \<open>nan\<close> for zero over zero.  A finite quotient
  is kept as the exact rational; the rounding to a 64-bit float is not modelled.
\<close>

datatype npfloat = Finite rat | Inf | NaNf

definition np_div :: "nat \<Rightarrow> nat \<Rightarrow> npfloat" where
  "np_div x y = (if y = 0 then (if x = 0 then NaNf else Inf) else Finite (of_nat x / of_nat y))"

definition series_div_scalar :: "nat series \<Rightarrow> nat \<Rightarrow> npfloat series" where
  "series_div_scalar s n = map (\<lambda>(l, x). (l, np_div x n)) s"

text \<open>Two series over the same labels in the same order are divided cell by cell.\<close>

definition series_div :: "nat series \<Rightarrow> nat series \<Rightarrow> npfloat series" where
  "series_div a b = map (\<lambda>((l, x), (l', y)). (l, np_div x y)) (zip a b)"

text \<open>
  \<^verbatim>\<open>frame.sample(n)\<close> draws \<open>n\<close> distinct row positions at random and returns those rows in
  the order drawn; asking for more rows than there are raises \<^verbatim>\<open>ValueError\<close>.  The random
  state is a function from the population size and the sample size to the positions drawn;
  a draw is valid when it has the size asked for and consists of distinct positions of the
  population.
\<close>

type_synonym random_state = "nat \<Rightarrow> nat \<Rightarrow> nat list"

definition valid_draw :: "nat list \<Rightarrow> nat \<Rightarrow> nat \<Rightarrow> bool" where
  "valid_draw ps n k = (length ps = k \<and> distinct ps \<and> list_all (\<lambda>i. i < n) ps)"

text \<open>
  The frame made of the rows at the given positions, in the given order.  Every caller
  passes positions of the frame: a valid draw, the true positions of a mask, or the
  positions at which a label is found.
\<close>

definition take_rows :: "frame \<Rightarrow> nat list \<Rightarrow> frame" where
  "take_rows df ps =
     df\<lparr>row_index := map (\<lambda>i. row_index df ! i) ps,
        columns := map (\<lambda>c. c\<lparr>cvalues := map (\<lambda>i. cvalues c ! i) ps\<rparr>) (columns df)\<rparr>"

definition pd_sample_n :: "frame \<Rightarrow> nat \<Rightarrow> random_state \<Rightarrow> error + frame" where
  "pd_sample_n df n rs = (if nrow df < n then Inl ValueError else Inr (take_rows df (rs (nrow df) n)))"

text \<open>
  \<^verbatim>\<open>Series.unique()\<close> keeps the first appearance of every value, a missing value included.
  The slice \<^verbatim>\<open>xs[:n]\<close> drops the last \<open>-n\<close> elements when \<open>n\<close> is negative.
\<close>

definition pd_unique :: "val list \<Rightarrow> val list" where
  "pd_unique xs = rev (remdups (rev xs))"

definition py_slice_to :: "int \<Rightarrow> 'a list \<Rightarrow> 'a list" where
  "py_slice_to n xs = (if 0 \<le> n then take (nat n) xs else take (length xs - nat (- n)) xs)"

text \<open>
  The aggregation applies the function to every column; its result is taken as the series
  of the per-column lists.
\<close>

definition agg_preview :: "frame \<Rightarrow> int \<Rightarrow> (val list) series" where
  "agg_preview df n = map (\<lambda>c. (cname c, py_slice_to n (pd_unique (cvalues c)))) (columns df)"

record info_row =
  col_label :: string
  col_dtype :: dtype
  samples :: "val list"
  frac_nan :: npfloat
  num_nan :: nat
  num_notnan :: nat
  frac_unique :: npfloat
  num_unique :: nat

text \<open>
  The summary table is built from the seven series, which all carry the frame's column
  labels in the frame's order: row \<open>j\<close> of the table collects the \<open>j\<close>-th value of each.
\<close>

definition pd_DataFrame ::
  "dtype series \<Rightarrow> (val list) series \<Rightarrow> npfloat series \<Rightarrow> nat series \<Rightarrow> nat series
     \<Rightarrow> npfloat series \<Rightarrow> nat series \<Rightarrow> info_row list" where
  "pd_DataFrame dt sm fn nn nnn fu nu =
     map (\<lambda>j. \<lparr>col_label = fst (dt ! j), col_dtype = snd (dt ! j), samples = snd (sm ! j),
               frac_nan = snd (fn ! j), num_nan = snd (nn ! j), num_notnan = snd (nnn ! j),
               frac_unique = snd (fu ! j), num_unique = snd (nu ! j)\<rparr>)
       [0..<length dt]"

text \<open>
  The function returns the table itself when styling is off.  Otherwise it applies the
  caller's transform and wraps the outcome in a display styler; the colours and bars the
  styler adds are decoration and are not modelled, and neither is the printed shape line.
\<close>

datatype info_result = Raw "info_row list" | Styled "info_row list"

fun summary_of :: "info_result \<Rightarrow> info_row list" where
  "summary_of (Raw t) = t"
| "summary_of (Styled t) = t"

definition frame_info ::
  "frame \<Rightarrow> int \<Rightarrow> bool \<Rightarrow> (info_row list \<Rightarrow> info_row list) \<Rightarrow> random_state \<Rightarrow> error + info_result" where
  "frame_info fr n_samples styling before_styling rs =
     (let nrow' = nrow fr;
          num_nan' = isna_sum fr;
          num_notnan' = pd_count fr;
          frac_nan' = series_div_scalar num_nan' nrow';
          num_unique' = pd_nunique fr;
          frac_unique' = series_div num_unique' num_notnan';
          max10k = min 10000 (nrow' div 10);
          n_samples' = min 1000 (min (int max10k) n_samples)
      in case pd_sample_n fr max10k rs of
           Inl e \<Rightarrow> Inl e
         | Inr smp \<Rightarrow>
             (let res = pd_DataFrame (dtypes fr) (agg_preview smp n_samples') frac_nan' num_nan'
                          num_notnan' frac_unique' num_unique'
              in if \<not> styling then Inr (Raw res) else Inr (Styled (before_styling res))))"

section \<open>negative\_down\_sample\<close>

text \<open>
  \<^verbatim>\<open>series == x\<close> compares cell by cell; a missing cell equals nothing, not even a missing
  value.  \<^verbatim>\<open>data[mask]\<close> keeps the rows at which the mask is true, in their order.
\<close>

definition eq_mask :: "val list \<Rightarrow> val \<Rightarrow> bool list" where
  "eq_mask vs x = map (\<lambda>v. v \<noteq> NaN \<and> v = x) vs"

definition mask_positions :: "bool list \<Rightarrow> nat list" where
  "mask_positions m = filter (\<lambda>i. m ! i) [0..<length m]"

definition select_rows :: "frame \<Rightarrow> bool list \<Rightarrow> frame" where
  "select_rows df m = take_rows df (mask_positions m)"

text \<open>
  The built-in \<^verbatim>\<open>round\<close> on a number: to the nearest integer, a tie going to the even
  one.  The fractions are modelled as exact rationals; the rounding of the 64-bit float
  arithmetic is not modelled.
\<close>

definition py_round :: "rat \<Rightarrow> int" where
  "py_round x =
     (let f = \<lfloor>x\<rfloor>; d = x - of_int f
      in if d < 1 / 2 then f else if 1 / 2 < d then f + 1 else if even f then f else f + 1)"

text \<open>
  \<^verbatim>\<open>frame.sample(frac=f)\<close> without replacement: a fraction above one raises
  \<^verbatim>\<open>ValueError\<close>, as a negative one does; otherwise \<^verbatim>\<open>round(f * len)\<close> rows are drawn.
\<close>

definition pd_sample_frac :: "frame \<Rightarrow> rat \<Rightarrow> random_state \<Rightarrow> error + frame" where
  "pd_sample_frac df f rs =
     (if 1 < f then Inl ValueError
      else if f < 0 then Inl ValueError
      else pd_sample_n df (nat (py_round (f * of_nat (nrow df)))) rs)"

text \<open>
  \<^verbatim>\<open>a.union(b).sort_values()\<close> on row labels: the labels of either side, each once, in
  increasing order.  \<^verbatim>\<open>data.loc[labels]\<close>: the rows carrying each label, in the order of
  the labels; \<^verbatim>\<open>KeyError\<close> for a label that no row carries.
\<close>

definition index_union_sorted :: "int list \<Rightarrow> int list \<Rightarrow> int list" where
  "index_union_sorted a b = sort (remdups (a @ b))"

definition pd_loc :: "frame \<Rightarrow> int list \<Rightarrow> error + frame" where
  "pd_loc df ls =
     (if \<not> set ls \<subseteq> set (row_index df) then Inl KeyError
      else Inr (take_rows df
             (concat (map (\<lambda>l. filter (\<lambda>i. row_index df ! i = l) [0..<nrow df]) ls))))"

definition negative_down_sample ::
  "frame \<Rightarrow> string \<Rightarrow> val \<Rightarrow> val \<Rightarrow> random_state \<Rightarrow> error + frame" where
  "negative_down_sample data target pos neg rs =
     (case getitem data target of
        Inl e \<Rightarrow> Inl e
      | Inr col \<Rightarrow>
          (let pos_data = select_rows data (eq_mask (cvalues col) pos)
           in if nrow data = 0 then Inl ZeroDivisionError
              else
                (let pos_ratio = (of_nat (nrow pos_data) :: rat) / of_nat (nrow data)
                 in if 1 - pos_ratio = 0 then Inl ZeroDivisionError
                    else
                      (let frac = pos_ratio / (1 - pos_ratio)
                       in case pd_sample_frac (select_rows data (eq_mask (cvalues col) neg)) frac rs of
                            Inl e \<Rightarrow> Inl e
                          | Inr neg_data \<Rightarrow>
                              pd_loc data
                                (index_union_sorted (row_index pos_data) (row_index neg_data))))))"

section \<open>Properties of drop\_columns\<close>

text \<open>
  With the in-place flag set, a frame that has a column never gets past the removal: either
  a label is unknown, or the removal returns \<^verbatim>\<open>None\<close> and the shape of \<^verbatim>\<open>None\<close> is
  read.  Nothing is logged on either path.
\<close>

lemma drop_columns_inplace_fails:
  assumes "ncol df \<noteq> 0"
  shows "(returned (drop_columns df cols True) = Inl KeyError
          \<or> returned (drop_columns df cols True) = Inl AttributeError)
         \<and> logged (drop_columns df cols True) = []"
  using assms by (simp add: drop_columns_def pd_drop_def)

text \<open>
  In the copying case the new frame is returned, the caller's frame is untouched and the
  message is logged.
\<close>

lemma drop_columns_copy:
  assumes "ncol df \<noteq> 0" "set cols \<subseteq> set (column_names df)"
  shows "drop_columns df cols False =
     \<lparr>returned = Inr (New (df\<lparr>columns := without cols (columns df)\<rparr>)), df_after = df,
      logged = [Info_dropped (length (without cols (columns df))) (length cols)]\<rparr>"
  using assms by (simp add: drop_columns_def pd_drop_def ncol_def)

text \<open>
  C1.  On a frame with at least one column and the in-place flag set, the removal returns
  \<^verbatim>\<open>None\<close>, so reading the shape of its result raises \<^verbatim>\<open>AttributeError\<close>: the
  caller's frame has been mutated, nothing is returned and nothing is logged.  Evaluated
  on a frame with the columns \<open>a\<close> and \<open>b\<close>, dropping \<open>a\<close>.
\<close>

theorem drop_columns_inplace_raises:
  "drop_columns
     \<lparr>row_index = [0], columns = [\<lparr>cname = ''a'', cdtype = Signed 64, cvalues = [IntV 1]\<rparr>,
                                     \<lparr>cname = ''b'', cdtype = Signed 64, cvalues = [IntV 2]\<rparr>]\<rparr>
     [''a''] True
   = \<lparr>returned = Inl AttributeError,
      df_after = \<lparr>row_index = [0], columns = [\<lparr>cname = ''b'', cdtype = Signed 64, cvalues = [IntV 2]\<rparr>]\<rparr>,
      logged = []\<rparr>"
  by (simp add: drop_columns_def pd_drop_def ncol_def column_names_def without_def)

text \<open>
  C9.  On a frame without columns, drop\_columns returns the caller's frame itself, leaves it
  unchanged, raises nothing and logs nothing, whatever the drop list and the flag are.
\<close>

theorem drop_columns_zero_columns:
  "ncol df = 0 \<Longrightarrow>
   drop_columns df cols inplace = \<lparr>returned = Inr Orig, df_after = df, logged = []\<rparr>"
  by (simp add: drop_columns_def)

theorem drop_columns_zero_columns_witness:
  "ncol \<lparr>row_index = [0, 1], columns = []\<rparr> = 0 \<and>
   drop_columns \<lparr>row_index = [0, 1], columns = []\<rparr> [''a'', ''b''] False
     = \<lparr>returned = Inr Orig, df_after = \<lparr>row_index = [0, 1], columns = []\<rparr>, logged = []\<rparr>"
proof -
  have h: "ncol \<lparr>row_index = [0, 1], columns = []\<rparr> = 0"
    by (simp add: ncol_def)
  show ?thesis
    using h drop_columns_zero_columns [OF h, of "[''a'', ''b'']" False] by simp
qed

section \<open>Properties of column\_cut\<close>

lemma filter_cname_single:
  "distinct (map cname cs) \<Longrightarrow> l \<in> set (map cname cs) \<Longrightarrow>
   map cname (filter (\<lambda>c. cname c = l) cs) = [l]"
proof (induction cs)
  case Nil
  then show ?case by simp
next
  case (Cons c cs)
  show ?case
  proof (cases "cname c = l")
    case True
    with Cons.prems have "l \<notin> cname ` set cs" by auto
    then have "filter (\<lambda>c. cname c = l) cs = []"
      by (auto simp: filter_empty_conv)
    with True show ?thesis by simp
  next
    case False
    with Cons show ?thesis by auto
  qed
qed

lemma names_select:
  "distinct (map cname cs) \<Longrightarrow> set ls \<subseteq> set (map cname cs) \<Longrightarrow>
   map cname (concat (map (\<lambda>l. filter (\<lambda>c. cname c = l) cs) ls)) = ls"
  by (induction ls) (simp_all add: filter_cname_single del: set_map)

lemma set_select:
  "set ls \<subseteq> set (map cname cs) \<Longrightarrow>
   set (concat (map (\<lambda>l. filter (\<lambda>c. cname c = l) cs) ls)) = {c \<in> set cs. cname c \<in> set ls}"
  by auto

text \<open>
  C3.  When every requested label is a column of the frame, column\_cut returns two frames.
  The first holds columns of the input carrying exactly the requested labels (listed in the
  requested order when the frame's labels are distinct); the second holds the remaining
  columns, unchanged and in their original order.  The two share no label, their columns
  together are the input's columns, and both keep the input's row labels.
\<close>

theorem column_cut_partition:
  assumes "set cols \<subseteq> set (column_names fr)"
  shows "\<exists>df1 df2. column_cut fr cols = Inr (df1, df2)
     \<and> (distinct (column_names fr) \<longrightarrow> column_names df1 = cols)
     \<and> set (column_names df1) = set cols
     \<and> set (columns df1) \<subseteq> set (columns fr)
     \<and> columns df2 = filter (\<lambda>c. cname c \<notin> set cols) (columns fr)
     \<and> set (column_names df1) \<inter> set (column_names df2) = {}
     \<and> set (columns df1) \<union> set (columns df2) = set (columns fr)
     \<and> row_index df1 = row_index fr \<and> row_index df2 = row_index fr"
proof -
  let ?sel = "concat (map (\<lambda>l. filter (\<lambda>c. cname c = l) (columns fr)) cols)"
  let ?df1 = "fr\<lparr>columns := ?sel\<rparr>"
  let ?df2 = "fr\<lparr>columns := without cols (columns fr)\<rparr>"
  from assms have sub: "set cols \<subseteq> set (map cname (columns fr))"
    by (simp add: column_names_def)
  have cut: "column_cut fr cols = Inr (?df1, ?df2)"
    using assms by (simp add: column_cut_def getitem_list_def pd_drop_def)
  have s1: "set ?sel = {c \<in> set (columns fr). cname c \<in> set cols}"
    using sub by (rule set_select)
  have n1: "distinct (column_names fr) \<longrightarrow> column_names ?df1 = cols"
    using sub by (simp add: column_names_def names_select del: set_map)
  have n2: "set (column_names ?df1) = set cols"
    using sub s1 unfolding column_names_def by (auto simp: image_iff)
  have d: "set (column_names ?df1) \<inter> set (column_names ?df2) = {}"
    unfolding n2 by (auto simp: column_names_def without_def)
  have u: "set (columns ?df1) \<union> set (columns ?df2) = set (columns fr)"
    using s1 by (auto simp: without_def)
  show ?thesis
    using cut n1 n2 s1 d u by (intro exI [of _ ?df1] exI [of _ ?df2]) (simp add: without_def)
qed

theorem column_cut_partition_witness:
  "set [''b''] \<subseteq> set (column_names
       \<lparr>row_index = [0], columns = [\<lparr>cname = ''a'', cdtype = Signed 64, cvalues = [IntV 1]\<rparr>,
                                       \<lparr>cname = ''b'', cdtype = Object, cvalues = [StrV ''x'']\<rparr>]\<rparr>)
   \<and> column_cut
       \<lparr>row_index = [0], columns = [\<lparr>cname = ''a'', cdtype = Signed 64, cvalues = [IntV 1]\<rparr>,
                                       \<lparr>cname = ''b'', cdtype = Object, cvalues = [StrV ''x'']\<rparr>]\<rparr> [''b'']
     = Inr (\<lparr>row_index = [0], columns = [\<lparr>cname = ''b'', cdtype = Object, cvalues = [StrV ''x'']\<rparr>]\<rparr>,
            \<lparr>row_index = [0], columns = [\<lparr>cname = ''a'', cdtype = Signed 64, cvalues = [IntV 1]\<rparr>]\<rparr>)"
proof -
  let ?fr = "\<lparr>row_index = [0], columns = [\<lparr>cname = ''a'', cdtype = Signed 64, cvalues = [IntV 1]\<rparr>,
                                       \<lparr>cname = ''b'', cdtype = Object, cvalues = [StrV ''x'']\<rparr>]\<rparr>"
  have h: "set [''b''] \<subseteq> set (column_names ?fr)"
    by (simp add: column_names_def)
  have d: "distinct (column_names ?fr)"
    by (simp add: column_names_def)
  from column_cut_partition [OF h] d obtain df1 df2 where
    cut: "column_cut ?fr [''b''] = Inr (df1, df2)" and n: "column_names df1 = [''b'']"
    by blast
  have "column_cut ?fr [''b'']
     = Inr (\<lparr>row_index = [0], columns = [\<lparr>cname = ''b'', cdtype = Object, cvalues = [StrV ''x'']\<rparr>]\<rparr>,
            \<lparr>row_index = [0], columns = [\<lparr>cname = ''a'', cdtype = Signed 64, cvalues = [IntV 1]\<rparr>]\<rparr>)"
    by (simp add: column_cut_def getitem_list_def pd_drop_def column_names_def without_def)
  with h show ?thesis by simp
qed

section \<open>Properties of common\_columns\<close>

lemma length_combinations2: "length (combinations2 xs) = length xs choose 2"
  by (induction xs) (simp_all add: numeral_2_eq_2)

lemma index_pairs_step: "m < n \<Longrightarrow> index_pairs m n = map (Pair m) [Suc m..<n] @ index_pairs (Suc m) n"
  by (simp add: index_pairs_def upt_conv_Cons)

lemma index_pairs_bounds: "(i, j) \<in> set (index_pairs m n) \<Longrightarrow> m \<le> i \<and> i < j \<and> j < n"
  by (auto simp: index_pairs_def)

lemma enumerate_as_map: "enumerate n xs = map (\<lambda>j. (j, xs ! (j - n))) [n..<n + length xs]"
  by (rule nth_equalityI) (simp_all add: nth_enumerate_eq)

lemma combinations2_enumerate:
  "combinations2 (enumerate n xs)
   = map (\<lambda>(i, j). ((i, xs ! (i - n)), (j, xs ! (j - n)))) (index_pairs n (n + length xs))"
proof (induction xs arbitrary: n)
  case Nil
  show ?case by (simp add: index_pairs_def)
next
  case (Cons x xs)
  have a: "map (Pair (n, x)) (enumerate (Suc n) xs)
        = map (\<lambda>(i, j). ((i, (x # xs) ! (i - n)), (j, (x # xs) ! (j - n)))) (map (Pair n) [Suc n..<n + length (x # xs)])"
  proof -
    have "map (\<lambda>j. ((n, x), (j, xs ! (j - Suc n)))) [Suc n..<Suc n + length xs]
        = map (\<lambda>j. ((n, (x # xs) ! (n - n)), (j, (x # xs) ! (j - n)))) [Suc n..<Suc n + length xs]"
    proof (rule map_cong [OF refl])
      fix j assume "j \<in> set [Suc n..<Suc n + length xs]"
      then have "Suc n \<le> j" by (simp only: set_upt atLeastLessThan_iff)
      then have "j - n = Suc (j - Suc n)" by arith
      then show "((n, x), j, xs ! (j - Suc n)) = ((n, (x # xs) ! (n - n)), j, (x # xs) ! (j - n))"
        by simp
    qed
    then show ?thesis
      by (simp add: enumerate_as_map o_def)
  qed
  have b: "map (\<lambda>(i, j). ((i, xs ! (i - Suc n)), (j, xs ! (j - Suc n)))) (index_pairs (Suc n) (Suc n + length xs))
         = map (\<lambda>(i, j). ((i, (x # xs) ! (i - n)), (j, (x # xs) ! (j - n)))) (index_pairs (Suc n) (n + length (x # xs)))"
  proof (rule map_cong)
    show "index_pairs (Suc n) (Suc n + length xs) = index_pairs (Suc n) (n + length (x # xs))"
      by simp
  next
    fix p assume p: "p \<in> set (index_pairs (Suc n) (n + length (x # xs)))"
    obtain i j where ij: "p = (i, j)" by (cases p)
    with p have "Suc n \<le> i" "Suc n \<le> j"
      using index_pairs_bounds [of i j "Suc n" "n + length (x # xs)"] by auto
    then have "i - n = Suc (i - Suc n)" "j - n = Suc (j - Suc n)" by arith+
    then show "(case p of (i, j) \<Rightarrow> ((i, xs ! (i - Suc n)), (j, xs ! (j - Suc n))))
        = (case p of (i, j) \<Rightarrow> ((i, (x # xs) ! (i - n)), (j, (x # xs) ! (j - n))))"
      by (simp add: ij)
  qed
  show ?case
    using a b Cons.IH [of "Suc n"] by (simp add: index_pairs_step)
qed

text \<open>
  C5.  For a sequence of n frames, common\_columns yields one element per pair of positions
  i < j, in the order of pairwise combination, n choose 2 elements in all; each element
  pairs (i, j) with the set of labels that are columns of both frames.  That set is the full
  label set when the two frames have the same labels and is empty when they have none in
  common.
\<close>

theorem common_columns_pairs:
  "common_columns dfs
     = map (\<lambda>(i, j). ((i, j), set (column_names (dfs ! i)) \<inter> set (column_names (dfs ! j))))
         (concat (map (\<lambda>i. map (Pair i) [Suc i..<length dfs]) [0..<length dfs]))
   \<and> length (common_columns dfs) = length dfs choose 2
   \<and> (\<forall>i j s. ((i, j), s) \<in> set (common_columns dfs) \<longrightarrow>
         i < j \<and> j < length dfs
         \<and> s = set (column_names (dfs ! i)) \<inter> set (column_names (dfs ! j))
         \<and> (set (column_names (dfs ! i)) = set (column_names (dfs ! j)) \<longrightarrow> s = set (column_names (dfs ! i)))
         \<and> (set (column_names (dfs ! i)) \<inter> set (column_names (dfs ! j)) = {} \<longrightarrow> s = {}))"
proof -
  have eq: "common_columns dfs
     = map (\<lambda>(i, j). ((i, j), set (column_names (dfs ! i)) \<inter> set (column_names (dfs ! j))))
         (index_pairs 0 (length dfs))"
    by (simp add: common_columns_def combinations2_enumerate split_def o_def)
  have len: "length (common_columns dfs) = length dfs choose 2"
    by (simp add: common_columns_def length_combinations2)
  have el: "\<forall>i j s. ((i, j), s) \<in> set (common_columns dfs) \<longrightarrow>
         i < j \<and> j < length dfs
         \<and> s = set (column_names (dfs ! i)) \<inter> set (column_names (dfs ! j))"
    unfolding eq by (auto dest: index_pairs_bounds)
  from eq have eq': "common_columns dfs
     = map (\<lambda>(i, j). ((i, j), set (column_names (dfs ! i)) \<inter> set (column_names (dfs ! j))))
         (concat (map (\<lambda>i. map (Pair i) [Suc i..<length dfs]) [0..<length dfs]))"
    by (simp only: index_pairs_def)
  show ?thesis
    using eq' len el by blast
qed

theorem common_columns_pairs_witness:
  "((0, 1), {''a''}) \<in> set (common_columns
       [\<lparr>row_index = [], columns = [\<lparr>cname = ''a'', cdtype = Object, cvalues = []\<rparr>]\<rparr>,
        \<lparr>row_index = [], columns = [\<lparr>cname = ''a'', cdtype = Object, cvalues = []\<rparr>]\<rparr>,
        \<lparr>row_index = [], columns = [\<lparr>cname = ''b'', cdtype = Object, cvalues = []\<rparr>]\<rparr>])
   \<and> ((0, 2), {}) \<in> set (common_columns
       [\<lparr>row_index = [], columns = [\<lparr>cname = ''a'', cdtype = Object, cvalues = []\<rparr>]\<rparr>,
        \<lparr>row_index = [], columns = [\<lparr>cname = ''a'', cdtype = Object, cvalues = []\<rparr>]\<rparr>,
        \<lparr>row_index = [], columns = [\<lparr>cname = ''b'', cdtype = Object, cvalues = []\<rparr>]\<rparr>])
   \<and> map fst (common_columns
       [\<lparr>row_index = [], columns = [\<lparr>cname = ''a'', cdtype = Object, cvalues = []\<rparr>]\<rparr>,
        \<lparr>row_index = [], columns = [\<lparr>cname = ''a'', cdtype = Object, cvalues = []\<rparr>]\<rparr>,
        \<lparr>row_index = [], columns = [\<lparr>cname = ''b'', cdtype = Object, cvalues = []\<rparr>]\<rparr>])
     = [(0, 1), (0, 2), (1, 2)]
   \<and> (0::nat) < 1 \<and> (1::nat) < 3 \<and> (0::nat) < 2 \<and> (2::nat) < 3"
proof -
  let ?A = "\<lparr>row_index = [], columns = [\<lparr>cname = ''a'', cdtype = Object, cvalues = []\<rparr>]\<rparr>"
  let ?B = "\<lparr>row_index = [], columns = [\<lparr>cname = ''b'', cdtype = Object, cvalues = []\<rparr>]\<rparr>"
  let ?dfs = "[?A, ?A, ?B]"
  have ev: "common_columns ?dfs = [((0, 1), {''a''}), ((0, 2), {}), ((1, 2), {})]"
    by (simp add: common_columns_def column_names_def enumerate_eq_zip)
  have m1: "((0, 1), {''a''}) \<in> set (common_columns ?dfs)"
    and m2: "((0, 2), {}) \<in> set (common_columns ?dfs)"
    by (simp_all add: ev)
  have same: "set (column_names (?dfs ! 0)) = set (column_names (?dfs ! 1))"
    by simp
  have disj: "set (column_names (?dfs ! 0)) \<inter> set (column_names (?dfs ! 2)) = {}"
    by (simp add: column_names_def)
  from common_columns_pairs [of ?dfs] m1 m2 same disj
  have "(0::nat) < 1 \<and> (1::nat) < length ?dfs \<and> (0::nat) < 2 \<and> (2::nat) < length ?dfs"
    by blast
  with m1 m2 ev show ?thesis by simp
qed

section \<open>Properties of categorize\<close>

subsection \<open>Places in a sequence\<close>






subsection \<open>First appearances\<close>







subsection \<open>The factorization\<close>






subsection \<open>Reading and writing one column\<close>

lemma filter_cname_unique:
  assumes "distinct (map cname cs)" "c \<in> set (map cname cs)"
  shows "\<exists>k. filter (\<lambda>k. cname k = c) cs = [k] \<and> cname k = c"
proof -
  have "map cname (filter (\<lambda>k. cname k = c) cs) = [c]"
    using assms by (rule filter_cname_single)
  then show ?thesis
    by (cases "filter (\<lambda>k. cname k = c) cs") auto
qed

lemma getitem_present:
  assumes "distinct (column_names df)" "c \<in> set (column_names df)"
  shows "\<exists>k. getitem df c = Inr k \<and> cname k = c"
  using filter_cname_unique [of "columns df" c] assms
  by (auto simp: getitem_def column_names_def)









subsection \<open>The loop over the listed columns\<close>






subsection \<open>What the cast does to a code\<close>

lemma stored_code_IntV: "\<exists>i. stored_code dt c = IntV i"
proof (cases dt)
  case None
  then show ?thesis by (simp add: stored_code_def)
next
  case (Some d)
  then show ?thesis by (cases d) (simp_all add: stored_code_def)
qed







subsection \<open>The column after the loop\<close>









section \<open>Properties of frame\_info\<close>

lemma frame_info_eq:
  "frame_info fr n styling bs rs =
     Inr ((if styling then Styled \<circ> bs else Raw)
       (pd_DataFrame (dtypes fr)
          (agg_preview (take_rows fr (rs (nrow fr) (min 10000 (nrow fr div 10))))
             (min 1000 (min (int (min 10000 (nrow fr div 10))) n)))
          (series_div_scalar (isna_sum fr) (nrow fr)) (isna_sum fr) (pd_count fr)
          (series_div (pd_nunique fr) (pd_count fr)) (pd_nunique fr)))"
proof -
  have "nrow fr div 10 \<le> nrow fr" by (rule div_le_dividend)
  then have "\<not> nrow fr < min 10000 (nrow fr div 10)" by linarith
  then show ?thesis
    by (simp add: frame_info_def pd_sample_n_def Let_def)
qed

lemma length_pd_DataFrame: "length (pd_DataFrame dt sm fn nn nnn fu nu) = length dt"
  by (simp add: pd_DataFrame_def)

lemma nth_pd_DataFrame:
  "j < length dt \<Longrightarrow>
   pd_DataFrame dt sm fn nn nnn fu nu ! j =
     \<lparr>col_label = fst (dt ! j), col_dtype = snd (dt ! j), samples = snd (sm ! j),
      frac_nan = snd (fn ! j), num_nan = snd (nn ! j), num_notnan = snd (nnn ! j),
      frac_unique = snd (fu ! j), num_unique = snd (nu ! j)\<rparr>"
  by (simp add: pd_DataFrame_def)

lemma summary_row:
  assumes "frame_info fr n styling (\<lambda>df. df) rs = Inr t" "j < ncol fr"
  shows "col_label (summary_of t ! j) = cname (columns fr ! j)"
    and "num_nan (summary_of t ! j) = length (filter (\<lambda>v. v = NaN) (cvalues (columns fr ! j)))"
    and "num_notnan (summary_of t ! j) = length (filter (\<lambda>v. v \<noteq> NaN) (cvalues (columns fr ! j)))"
    and "num_unique (summary_of t ! j) = length (remdups (filter (\<lambda>v. v \<noteq> NaN) (cvalues (columns fr ! j))))"
    and "frac_nan (summary_of t ! j) = np_div (num_nan (summary_of t ! j)) (nrow fr)"
    and "frac_unique (summary_of t ! j) = np_div (num_unique (summary_of t ! j)) (num_notnan (summary_of t ! j))"
proof -
  let ?tab = "pd_DataFrame (dtypes fr)
          (agg_preview (take_rows fr (rs (nrow fr) (min 10000 (nrow fr div 10))))
             (min 1000 (min (int (min 10000 (nrow fr div 10))) n)))
          (series_div_scalar (isna_sum fr) (nrow fr)) (isna_sum fr) (pd_count fr)
          (series_div (pd_nunique fr) (pd_count fr)) (pd_nunique fr)"
  from assms(1) have t: "summary_of t = ?tab"
    unfolding frame_info_eq by (cases styling) auto
  from assms(2) have j: "j < length (dtypes fr)" "j < length (columns fr)"
    by (simp_all add: dtypes_def ncol_def)
  note row = nth_pd_DataFrame [OF j(1)]
  show "col_label (summary_of t ! j) = cname (columns fr ! j)"
    unfolding t row using j(2) by (simp add: dtypes_def)
  show nn: "num_nan (summary_of t ! j) = length (filter (\<lambda>v. v = NaN) (cvalues (columns fr ! j)))"
    unfolding t row using j(2) by (simp add: isna_sum_def)
  show nnn: "num_notnan (summary_of t ! j) = length (filter (\<lambda>v. v \<noteq> NaN) (cvalues (columns fr ! j)))"
    unfolding t row using j(2) by (simp add: pd_count_def)
  show nu: "num_unique (summary_of t ! j) = length (remdups (filter (\<lambda>v. v \<noteq> NaN) (cvalues (columns fr ! j))))"
    unfolding t row using j(2) by (simp add: pd_nunique_def)
  show "frac_nan (summary_of t ! j) = np_div (num_nan (summary_of t ! j)) (nrow fr)"
    unfolding t row using j(2) by (simp add: series_div_scalar_def isna_sum_def)
  show "frac_unique (summary_of t ! j) = np_div (num_unique (summary_of t ! j)) (num_notnan (summary_of t ! j))"
    unfolding t row using j(2) by (simp add: series_div_def pd_nunique_def pd_count_def)
qed

lemma summary_length:
  assumes "frame_info fr n styling (\<lambda>df. df) rs = Inr t"
  shows "length (summary_of t) = ncol fr"
  using assms unfolding frame_info_eq
  by (cases styling) (auto simp: length_pd_DataFrame dtypes_def ncol_def)

lemma frame_info_returns: "\<exists>t. frame_info fr n styling bs rs = Inr t"
  by (simp add: frame_info_eq)

lemma count_split: "length (filter (\<lambda>v. v = NaN) xs) + length (filter (\<lambda>v. v \<noteq> NaN) xs) = length xs"
  using sum_length_filter_compl [of "\<lambda>v. v = NaN" xs] by simp

text \<open>
  C7.  For a well-formed frame, frame\_info returns a summary (the table itself, or with the
  default transform the table inside the styler) that has exactly one row per column of
  the input, labelled by the columns in their order, and in every row the count of missing
  cells and the count of non-missing cells add up to the input's row count.
\<close>

theorem frame_info_rows:
  assumes "wf_frame fr"
  shows "\<exists>t. frame_info fr n styling (\<lambda>df. df) rs = Inr t
     \<and> length (summary_of t) = ncol fr
     \<and> map col_label (summary_of t) = column_names fr
     \<and> (\<forall>r\<in>set (summary_of t). num_nan r + num_notnan r = nrow fr)"
proof -
  obtain t where t: "frame_info fr n styling (\<lambda>df. df) rs = Inr t"
    using frame_info_returns by blast
  note len = summary_length [OF t]
  have lab: "map col_label (summary_of t) = column_names fr"
  proof (rule nth_equalityI)
    show "length (map col_label (summary_of t)) = length (column_names fr)"
      by (simp add: len ncol_def column_names_def)
  next
    fix j assume "j < length (map col_label (summary_of t))"
    then have j: "j < ncol fr" by (simp add: len)
    then show "map col_label (summary_of t) ! j = column_names fr ! j"
      using summary_row(1) [OF t j] by (simp add: len ncol_def column_names_def)
  qed
  have cnt: "\<forall>r\<in>set (summary_of t). num_nan r + num_notnan r = nrow fr"
  proof
    fix r assume "r \<in> set (summary_of t)"
    then obtain j where j: "j < ncol fr" and r: "r = summary_of t ! j"
      by (auto simp: in_set_conv_nth len)
    from j have "columns fr ! j \<in> set (columns fr)" by (simp add: ncol_def)
    with assms have "length (cvalues (columns fr ! j)) = nrow fr"
      by (simp add: wf_frame_def list_all_iff)
    then show "num_nan r + num_notnan r = nrow fr"
      unfolding r summary_row(2,3) [OF t j] by (simp add: count_split)
  qed
  from t len lab cnt show ?thesis by blast
qed

text \<open>
  C4.  In every row of the summary, \<open>frac_unique\<close> is the quotient of that row's
  \<open>num_unique\<close> by its \<open>num_notnan\<close> and \<open>frac_nan\<close> is the quotient of its \<open>num_nan\<close>
  by the input's row count, the quotient being the array library's division.  For a column
  with only missing cells \<open>num_notnan\<close> is \<open>0\<close> and the quotient is \<open>nan\<close>; for a
  non-empty column of distinct non-missing cells it is \<open>1\<close>.
\<close>

theorem frame_info_fractions:
  "\<exists>t. frame_info fr n styling (\<lambda>df. df) rs = Inr t
     \<and> (\<forall>j<ncol fr.
           frac_unique (summary_of t ! j) = np_div (num_unique (summary_of t ! j)) (num_notnan (summary_of t ! j))
         \<and> frac_nan (summary_of t ! j) = np_div (num_nan (summary_of t ! j)) (nrow fr)
         \<and> (set (cvalues (columns fr ! j)) \<subseteq> {NaN} \<longrightarrow>
               num_notnan (summary_of t ! j) = 0 \<and> frac_unique (summary_of t ! j) = NaNf)
         \<and> (distinct (cvalues (columns fr ! j)) \<and> NaN \<notin> set (cvalues (columns fr ! j))
              \<and> cvalues (columns fr ! j) \<noteq> [] \<longrightarrow>
               frac_unique (summary_of t ! j) = Finite 1))"
proof -
  obtain t where t: "frame_info fr n styling (\<lambda>df. df) rs = Inr t"
    using frame_info_returns by blast
  have "frac_unique (summary_of t ! j) = np_div (num_unique (summary_of t ! j)) (num_notnan (summary_of t ! j))
         \<and> frac_nan (summary_of t ! j) = np_div (num_nan (summary_of t ! j)) (nrow fr)
         \<and> (set (cvalues (columns fr ! j)) \<subseteq> {NaN} \<longrightarrow>
               num_notnan (summary_of t ! j) = 0 \<and> frac_unique (summary_of t ! j) = NaNf)
         \<and> (distinct (cvalues (columns fr ! j)) \<and> NaN \<notin> set (cvalues (columns fr ! j))
              \<and> cvalues (columns fr ! j) \<noteq> [] \<longrightarrow>
               frac_unique (summary_of t ! j) = Finite 1)" if j: "j < ncol fr" for j
  proof -
    let ?xs = "cvalues (columns fr ! j)"
    note row = summary_row [OF t j]
    have allnull: "num_notnan (summary_of t ! j) = 0 \<and> frac_unique (summary_of t ! j) = NaNf"
      if "set ?xs \<subseteq> {NaN}"
    proof -
      from that have "filter (\<lambda>v. v \<noteq> NaN) ?xs = []"
        by (auto simp: filter_empty_conv)
      then show ?thesis
        unfolding row(6) row(3,4) by (simp add: np_div_def)
    qed
    have allunique: "frac_unique (summary_of t ! j) = Finite 1"
      if "distinct ?xs \<and> NaN \<notin> set ?xs \<and> ?xs \<noteq> []"
    proof -
      from that have "filter (\<lambda>v. v \<noteq> NaN) ?xs = ?xs"
        by (auto simp: filter_id_conv)
      with that show ?thesis
        unfolding row(6) row(3,4) by (simp add: np_div_def distinct_remdups_id)
    qed
    from row(5,6) allnull allunique show ?thesis by blast
  qed
  with t show ?thesis by blast
qed

theorem frame_info_rows_witness:
  "wf_frame \<lparr>row_index = [0, 1, 2],
             columns = [\<lparr>cname = ''a'', cdtype = Object, cvalues = [StrV ''x'', NaN, StrV ''y'']\<rparr>,
                        \<lparr>cname = ''b'', cdtype = Float 64, cvalues = [NaN, NaN, NaN]\<rparr>]\<rparr>
   \<and> (\<exists>t. frame_info \<lparr>row_index = [0, 1, 2],
             columns = [\<lparr>cname = ''a'', cdtype = Object, cvalues = [StrV ''x'', NaN, StrV ''y'']\<rparr>,
                        \<lparr>cname = ''b'', cdtype = Float 64, cvalues = [NaN, NaN, NaN]\<rparr>]\<rparr>
            33 True (\<lambda>df. df) (\<lambda>n k. [0..<k]) = Inr t
        \<and> length (summary_of t) = 2
        \<and> map col_label (summary_of t) = [''a'', ''b'']
        \<and> (\<forall>r\<in>set (summary_of t). num_nan r + num_notnan r = 3))"
proof -
  let ?fr = "\<lparr>row_index = [0, 1, 2],
             columns = [\<lparr>cname = ''a'', cdtype = Object, cvalues = [StrV ''x'', NaN, StrV ''y'']\<rparr>,
                        \<lparr>cname = ''b'', cdtype = Float 64, cvalues = [NaN, NaN, NaN]\<rparr>]\<rparr>"
  have h: "wf_frame ?fr"
    by (simp add: wf_frame_def nrow_def column_names_def)
  have "ncol ?fr = 2" "column_names ?fr = [''a'', ''b'']" "nrow ?fr = 3"
    by (simp_all add: ncol_def column_names_def nrow_def)
  with frame_info_rows [OF h, of 33 True "\<lambda>n k. [0..<k]"] h show ?thesis
    by simp
qed

theorem frame_info_fractions_witness:
  "(1::nat) < ncol \<lparr>row_index = [0, 1, 2],
             columns = [\<lparr>cname = ''a'', cdtype = Object, cvalues = [StrV ''x'', StrV ''z'', StrV ''y'']\<rparr>,
                        \<lparr>cname = ''b'', cdtype = Float 64, cvalues = [NaN, NaN, NaN]\<rparr>]\<rparr>
   \<and> set [NaN, NaN, NaN] \<subseteq> {NaN}
   \<and> distinct [StrV ''x'', StrV ''z'', StrV ''y''] \<and> NaN \<notin> set [StrV ''x'', StrV ''z'', StrV ''y'']
   \<and> (\<exists>t. frame_info \<lparr>row_index = [0, 1, 2],
             columns = [\<lparr>cname = ''a'', cdtype = Object, cvalues = [StrV ''x'', StrV ''z'', StrV ''y'']\<rparr>,
                        \<lparr>cname = ''b'', cdtype = Float 64, cvalues = [NaN, NaN, NaN]\<rparr>]\<rparr>
            33 False (\<lambda>df. df) (\<lambda>n k. [0..<k]) = Inr t
        \<and> frac_unique (summary_of t ! 0) = Finite 1
        \<and> num_notnan (summary_of t ! 1) = 0
        \<and> frac_unique (summary_of t ! 1) = NaNf)"
proof -
  let ?fr = "\<lparr>row_index = [0, 1, 2],
             columns = [\<lparr>cname = ''a'', cdtype = Object, cvalues = [StrV ''x'', StrV ''z'', StrV ''y'']\<rparr>,
                        \<lparr>cname = ''b'', cdtype = Float 64, cvalues = [NaN, NaN, NaN]\<rparr>]\<rparr>"
  have n: "(0::nat) < ncol ?fr" "(1::nat) < ncol ?fr"
    by (simp_all add: ncol_def)
  have a: "set (cvalues (columns ?fr ! 1)) \<subseteq> {NaN}"
    by simp
  have b: "distinct (cvalues (columns ?fr ! 0)) \<and> NaN \<notin> set (cvalues (columns ?fr ! 0))
      \<and> cvalues (columns ?fr ! 0) \<noteq> []"
    by simp
  from frame_info_fractions [of ?fr 33 False "\<lambda>n k. [0..<k]"] obtain t where
    t: "frame_info ?fr 33 False (\<lambda>df. df) (\<lambda>n k. [0..<k]) = Inr t"
    and all: "\<forall>j<ncol ?fr.
           frac_unique (summary_of t ! j) = np_div (num_unique (summary_of t ! j)) (num_notnan (summary_of t ! j))
         \<and> frac_nan (summary_of t ! j) = np_div (num_nan (summary_of t ! j)) (nrow ?fr)
         \<and> (set (cvalues (columns ?fr ! j)) \<subseteq> {NaN} \<longrightarrow>
               num_notnan (summary_of t ! j) = 0 \<and> frac_unique (summary_of t ! j) = NaNf)
         \<and> (distinct (cvalues (columns ?fr ! j)) \<and> NaN \<notin> set (cvalues (columns ?fr ! j))
              \<and> cvalues (columns ?fr ! j) \<noteq> [] \<longrightarrow>
               frac_unique (summary_of t ! j) = Finite 1)"
    by blast
  from all n(1) b have r0: "frac_unique (summary_of t ! 0) = Finite 1" by blast
  from all n(2) a have r1: "num_notnan (summary_of t ! 1) = 0 \<and> frac_unique (summary_of t ! 1) = NaNf"
    by blast
  from t r0 r1 have "\<exists>t. frame_info ?fr 33 False (\<lambda>df. df) (\<lambda>n k. [0..<k]) = Inr t
        \<and> frac_unique (summary_of t ! 0) = Finite 1
        \<and> num_notnan (summary_of t ! 1) = 0
        \<and> frac_unique (summary_of t ! 1) = NaNf"
    by blast
  with n(2) show ?thesis by simp
qed

section \<open>Properties of negative\_down\_sample\<close>

subsection \<open>Rounding, masks and row selection\<close>

lemma py_round_of_nat: "py_round (of_nat n) = int n"
  by (simp add: py_round_def)

lemma mask_positions_eq_mask:
  "mask_positions (eq_mask vs x) = filter (\<lambda>i. vs ! i \<noteq> NaN \<and> vs ! i = x) [0..<length vs]"
  unfolding mask_positions_def eq_mask_def
  by (rule filter_cong) simp_all

lemma mask_positions_bound: "i \<in> set (mask_positions m) \<Longrightarrow> i < length m"
  by (simp add: mask_positions_def)

lemma distinct_mask_positions: "distinct (mask_positions m)"
  by (simp add: mask_positions_def)

lemma row_index_take_rows: "row_index (take_rows df ps) = map (\<lambda>i. row_index df ! i) ps"
  by (simp add: take_rows_def)

lemma nrow_take_rows: "nrow (take_rows df ps) = length ps"
  by (simp add: take_rows_def nrow_def)

lemma binary_split:
  assumes "list_all (\<lambda>v. v = pos \<or> v = neg) vs" "pos \<noteq> neg" "pos \<noteq> NaN" "neg \<noteq> NaN"
  shows "length (mask_positions (eq_mask vs pos)) + length (mask_positions (eq_mask vs neg)) = length vs"
proof -
  let ?P = "\<lambda>i. vs ! i \<noteq> NaN \<and> vs ! i = pos"
  have "filter (\<lambda>i. vs ! i \<noteq> NaN \<and> vs ! i = neg) [0..<length vs] = filter (\<lambda>i. \<not> ?P i) [0..<length vs]"
  proof (rule filter_cong [OF refl])
    fix i assume "i \<in> set [0..<length vs]"
    then have "vs ! i \<in> set vs" by simp
    with assms(1) have "vs ! i = pos \<or> vs ! i = neg" by (simp add: list_all_iff)
    with assms(2-4) show "(vs ! i \<noteq> NaN \<and> vs ! i = neg) = (\<not> ?P i)" by auto
  qed
  then show ?thesis
    using sum_length_filter_compl [of ?P "[0..<length vs]"]
    by (simp add: mask_positions_eq_mask)
qed

lemma masks_disjoint:
  assumes "pos \<noteq> neg"
  shows "set (mask_positions (eq_mask vs pos)) \<inter> set (mask_positions (eq_mask vs neg)) = {}"
  using assms by (auto simp: mask_positions_eq_mask)

subsection \<open>Selecting rows by label\<close>

lemma filter_eq_upt: "filter (\<lambda>i. i = k) [0..<n] = (if k < n then [k] else [])"
  by (induction n) auto

lemma positions_of_label:
  assumes "distinct ls" "k < length ls"
  shows "filter (\<lambda>i. ls ! i = ls ! k) [0..<length ls] = [k]"
proof -
  have "filter (\<lambda>i. ls ! i = ls ! k) [0..<length ls] = filter (\<lambda>i. i = k) [0..<length ls]"
  proof (rule filter_cong [OF refl])
    fix i assume "i \<in> set [0..<length ls]"
    then have "i < length ls" by simp
    with assms show "(ls ! i = ls ! k) = (i = k)"
      by (simp add: nth_eq_iff_index_eq)
  qed
  with assms(2) show ?thesis by (simp add: filter_eq_upt)
qed

lemma loc_labels:
  assumes "distinct ls" "set idx \<subseteq> set ls"
  shows "map (\<lambda>i. ls ! i) (concat (map (\<lambda>l. filter (\<lambda>i. ls ! i = l) [0..<length ls]) idx)) = idx"
  using assms(2)
proof (induction idx)
  case Nil
  show ?case by simp
next
  case (Cons l idx)
  then obtain k where "k < length ls" "ls ! k = l"
    by (auto simp: in_set_conv_nth)
  with Cons positions_of_label [OF assms(1), of k] show ?case by simp
qed

lemma loc_bound:
  "list_all (\<lambda>i. i < n) (concat (map (\<lambda>l. filter (\<lambda>i. ls ! i = l) [0..<n]) idx))"
  by (auto simp: list_all_iff)

lemma pd_loc_distinct:
  assumes "distinct (row_index df)" "set idx \<subseteq> set (row_index df)"
  shows "\<exists>ps. pd_loc df idx = Inr (take_rows df ps) \<and> list_all (\<lambda>i. i < nrow df) ps
           \<and> row_index (take_rows df ps) = idx"
proof -
  let ?ps = "concat (map (\<lambda>l. filter (\<lambda>i. row_index df ! i = l) [0..<nrow df]) idx)"
  have "pd_loc df idx = Inr (take_rows df ?ps)"
    using assms(2) by (simp add: pd_loc_def)
  moreover have "list_all (\<lambda>i. i < nrow df) ?ps"
    by (rule loc_bound)
  moreover have "row_index (take_rows df ?ps) = idx"
    using loc_labels [OF assms] by (simp add: row_index_take_rows nrow_def)
  ultimately show ?thesis by blast
qed

lemma distinct_map_nth:
  assumes "distinct xs" "distinct ks" "list_all (\<lambda>k. k < length xs) ks"
  shows "distinct (map (\<lambda>k. xs ! k) ks)"
proof -
  have "inj_on (\<lambda>k. xs ! k) (set ks)"
  proof (rule inj_onI)
    fix a b assume "a \<in> set ks" "b \<in> set ks" "xs ! a = xs ! b"
    with assms(1,3) show "a = b"
      by (simp add: list_all_iff nth_eq_iff_index_eq)
  qed
  with assms(2) show ?thesis by (simp add: distinct_map)
qed

lemma getitem_member: "getitem df c = Inr k \<Longrightarrow> k \<in> set (columns df)"
proof -
  assume "getitem df c = Inr k"
  then have "filter (\<lambda>k. cname k = c) (columns df) = [k]"
    by (auto simp: getitem_def split: list.splits)
  then have "k \<in> set (filter (\<lambda>k. cname k = c) (columns df))" by simp
  then show ?thesis by simp
qed

lemma sample_fraction:
  assumes "P + N = T" "0 < T" "(of_nat P :: rat) / of_nat T \<noteq> 1"
  shows "0 < N"
    and "1 - (of_nat P :: rat) / of_nat T \<noteq> 0"
    and "((of_nat P :: rat) / of_nat T) / (1 - of_nat P / of_nat T) = of_nat P / of_nat N"
proof -
  from assms(2,3) have "P \<noteq> T" by auto
  with assms(1) show n: "0 < N" by simp
  from assms(3) show "1 - (of_nat P :: rat) / of_nat T \<noteq> 0" by simp
  from assms(1) have "(of_nat T :: rat) = of_nat P + of_nat N"
    by (metis of_nat_add)
  then have "1 - (of_nat P :: rat) / of_nat T = of_nat N / of_nat T"
    using assms(2) by (simp add: field_simps)
  then show "((of_nat P :: rat) / of_nat T) / (1 - of_nat P / of_nat T) = of_nat P / of_nat N"
    using assms(2) n by simp
qed

text \<open>
  C8.  When the outcome column exists, the table has rows, and the positive fraction \<open>p\<close>
  (different from one, so that the sampling fraction is computed) gives a sampling fraction
  \<open>p / (1 - p)\<close> above one, negative\_down\_sample returns nothing: the sampling operation
  raises its \<^verbatim>\<open>ValueError\<close> for a fraction above one without replacement.
\<close>

theorem negative_down_sample_over_fraction:
  assumes "getitem data target = Inr col" "0 < nrow data"
    and "p = (of_nat (nrow (select_rows data (eq_mask (cvalues col) pos))) :: rat) / of_nat (nrow data)"
    and "p \<noteq> 1" "1 < p / (1 - p)"
  shows "negative_down_sample data target pos neg rs = Inl ValueError"
proof -
  from assms(3,4) have "1 - (of_nat (nrow (select_rows data (eq_mask (cvalues col) pos))) :: rat) / of_nat (nrow data) \<noteq> 0"
    by simp
  with assms(1,2,5) show ?thesis
    unfolding assms(3) by (simp add: negative_down_sample_def pd_sample_frac_def Let_def)
qed

lemma negative_down_sample_unfold:
  assumes "getitem data target = Inr col" "0 < nrow data"
    and "q = (of_nat (nrow (select_rows data (eq_mask (cvalues col) pos))) :: rat) / of_nat (nrow data)"
    and "q \<noteq> 1"
  shows "negative_down_sample data target pos neg rs =
     (case pd_sample_frac (select_rows data (eq_mask (cvalues col) neg)) (q / (1 - q)) rs of
        Inl e \<Rightarrow> Inl e
      | Inr neg_data \<Rightarrow>
          pd_loc data (index_union_sorted
            (row_index (select_rows data (eq_mask (cvalues col) pos))) (row_index neg_data)))"
proof -
  from assms(3,4) have "1 - (of_nat (nrow (select_rows data (eq_mask (cvalues col) pos))) :: rat) / of_nat (nrow data) \<noteq> 0"
    by simp
  with assms(1,2) show ?thesis
    unfolding assms(3) by (simp add: negative_down_sample_def Let_def)
qed

text \<open>
  C6.  Take a well-formed table whose outcome column holds only the positive and the
  negative value, with a positive fraction \<open>p\<close> different from one and a sampling fraction
  \<open>p / (1 - p)\<close> of at most one, and a valid draw of the random state.  Then
  negative\_down\_sample returns rows of the input, unchanged; their labels are sorted and
  without duplicates; they are the labels of all positive rows together with those of the
  sampled negative rows; the sampled rows are distinct negative rows; and their number is
  exactly \<open>p / (1 - p)\<close> times the number of negative rows.
\<close>

theorem negative_down_sample_result:
  assumes wf: "wf_frame data" and col: "getitem data target = Inr col"
    and bin: "list_all (\<lambda>v. v = pos \<or> v = neg) (cvalues col)"
    and ne: "pos \<noteq> neg" "pos \<noteq> NaN" "neg \<noteq> NaN"
    and posL: "posL = row_index (select_rows data (eq_mask (cvalues col) pos))"
    and negL: "negL = row_index (select_rows data (eq_mask (cvalues col) neg))"
    and p: "p = (of_nat (length posL) :: rat) / of_nat (nrow data)"
    and nonempty: "0 < nrow data" and p1: "p \<noteq> 1" and frac: "p / (1 - p) \<le> 1"
    and draw: "valid_draw (rs (length negL) (length posL)) (length negL) (length posL)"
    and smp: "sampled = map (\<lambda>i. negL ! i) (rs (length negL) (length posL))"
  shows "\<exists>res ps. negative_down_sample data target pos neg rs = Inr res
     \<and> res = take_rows data ps \<and> list_all (\<lambda>i. i < nrow data) ps
     \<and> sorted (row_index res) \<and> distinct (row_index res)
     \<and> set (row_index res) = set posL \<union> set sampled
     \<and> length (row_index res) = length posL + length sampled
     \<and> distinct sampled \<and> set sampled \<subseteq> set negL
     \<and> (of_nat (length sampled) :: rat) = p / (1 - p) * of_nat (length negL)"
proof -
  let ?tv = "cvalues col"
  let ?ls = "row_index data"
  let ?posI = "mask_positions (eq_mask ?tv pos)"
  let ?negI = "mask_positions (eq_mask ?tv neg)"
  let ?P = "length posL"
  let ?N = "length negL"
  let ?T = "nrow data"
  let ?dr = "rs ?N ?P"
  from wf have dl: "distinct ?ls" by (simp add: wf_frame_def)
  from getitem_member [OF col] wf have len: "length ?tv = ?T"
    by (simp add: wf_frame_def list_all_iff)
  have pl: "posL = map (\<lambda>i. ?ls ! i) ?posI" and nl: "negL = map (\<lambda>i. ?ls ! i) ?negI"
    by (simp_all add: posL negL select_rows_def row_index_take_rows)
  have P: "?P = length ?posI" and N: "?N = length ?negI"
    by (simp_all add: pl nl)
  have npos: "nrow (select_rows data (eq_mask ?tv pos)) = ?P"
    and nneg: "nrow (select_rows data (eq_mask ?tv neg)) = ?N"
    by (simp_all add: select_rows_def nrow_take_rows P N)
  have split: "?P + ?N = ?T"
    using binary_split [OF bin ne] by (simp add: P N len)
  have pb: "list_all (\<lambda>i. i < length ?ls) ?posI" and nb: "list_all (\<lambda>i. i < length ?ls) ?negI"
    using mask_positions_bound [of _ "eq_mask ?tv pos"] mask_positions_bound [of _ "eq_mask ?tv neg"] len
    by (auto simp: list_all_iff eq_mask_def nrow_def)
  from p1 have p1': "(of_nat ?P :: rat) / of_nat ?T \<noteq> 1" by (simp add: p)
  note sf = sample_fraction [OF split nonempty p1']
  have fr_eq: "p / (1 - p) = of_nat ?P / of_nat ?N"
    unfolding p by (rule sf(3))
  from sf(1) have Npos: "(0::rat) < of_nat ?N" by simp
  from frac have "(of_nat ?P :: rat) / of_nat ?N \<le> 1" by (simp only: fr_eq)
  with Npos have "(of_nat ?P :: rat) \<le> of_nat ?N"
    by (simp add: pos_divide_le_eq)
  then have PN: "?P \<le> ?N" by (simp only: of_nat_le_iff)
  from draw have dlen: "length ?dr = ?P" and ddist: "distinct ?dr" and dbound: "list_all (\<lambda>i. i < ?N) ?dr"
    by (simp_all add: valid_draw_def)
  \<comment> \<open>the sampled negative rows\<close>
  have frac_val: "(of_nat ?P :: rat) / of_nat ?N * of_nat ?N = of_nat ?P"
    using sf(1) by simp
  have n_draw: "nat (py_round ((of_nat ?P :: rat) / of_nat ?N * of_nat ?N)) = ?P"
    unfolding frac_val by (simp add: py_round_of_nat)
  have not_over: "\<not> 1 < (of_nat ?P :: rat) / of_nat ?N"
    using frac by (simp only: fr_eq not_less)
  have not_neg: "\<not> (of_nat ?P :: rat) / of_nat ?N < 0"
    by (simp add: not_less)
  have sample: "pd_sample_frac (select_rows data (eq_mask ?tv neg)) (p / (1 - p)) rs
      = Inr (take_rows (select_rows data (eq_mask ?tv neg)) ?dr)"
    unfolding fr_eq pd_sample_frac_def pd_sample_n_def nneg n_draw
    using not_over not_neg PN by simp
  have neg_index: "row_index (take_rows (select_rows data (eq_mask ?tv neg)) ?dr) = sampled"
    by (simp add: row_index_take_rows smp negL)
  have q: "p = (of_nat (nrow (select_rows data (eq_mask ?tv pos))) :: rat) / of_nat (nrow data)"
    by (simp only: npos p)
  have run: "negative_down_sample data target pos neg rs
      = pd_loc data (index_union_sorted posL sampled)"
    unfolding negative_down_sample_unfold [OF col nonempty q p1] sample
    by (simp only: sum.case neg_index flip: posL)
  \<comment> \<open>the labels\<close>
  let ?sI = "map (\<lambda>i. ?negI ! i) ?dr"
  have sI_bound: "list_all (\<lambda>i. i < length ?ls) ?sI"
    using dbound nb by (auto simp: list_all_iff N)
  have sI_dist: "distinct ?sI"
    using distinct_map_nth [OF distinct_mask_positions ddist] dbound by (simp add: N)
  have sL: "sampled = map (\<lambda>i. ?ls ! i) ?sI"
    using dbound by (simp add: smp nl list_all_iff N)
  have s_dist: "distinct sampled"
    unfolding sL using dl sI_dist sI_bound by (rule distinct_map_nth)
  have s_sub: "set sampled \<subseteq> set negL"
    using dbound by (auto simp: smp list_all_iff)
  have s_len: "length sampled = ?P"
    by (simp add: smp dlen)
  have disj: "set ?posI \<inter> set ?sI = {}"
  proof -
    have "set ?sI \<subseteq> set ?negI"
      using dbound by (auto simp: list_all_iff N)
    with masks_disjoint [OF ne(1), of ?tv] show ?thesis by blast
  qed
  have all_dist: "distinct (posL @ sampled)"
  proof -
    have "distinct (?posI @ ?sI)"
      using distinct_mask_positions sI_dist disj by simp
    moreover have "list_all (\<lambda>i. i < length ?ls) (?posI @ ?sI)"
      using pb sI_bound by simp
    ultimately have "distinct (map (\<lambda>i. ?ls ! i) (?posI @ ?sI))"
      using dl by (intro distinct_map_nth)
    then show ?thesis by (simp add: pl sL)
  qed
  let ?idx = "index_union_sorted posL sampled"
  have idx_set: "set ?idx = set posL \<union> set sampled"
    by (simp add: index_union_sorted_def)
  have idx_sorted: "sorted ?idx" and idx_dist: "distinct ?idx"
    by (simp_all add: index_union_sorted_def)
  have idx_len: "length ?idx = length posL + length sampled"
    using all_dist by (simp add: index_union_sorted_def distinct_remdups_id)
  have idx_sub: "set ?idx \<subseteq> set ?ls"
    unfolding idx_set using pb sI_bound by (auto simp: pl sL list_all_iff)
  from pd_loc_distinct [OF dl idx_sub] obtain ps where
    loc: "pd_loc data ?idx = Inr (take_rows data ps)" and psb: "list_all (\<lambda>i. i < nrow data) ps"
    and ri: "row_index (take_rows data ps) = ?idx"
    by blast
  have amount: "(of_nat (length sampled) :: rat) = p / (1 - p) * of_nat ?N"
    unfolding fr_eq frac_val by (simp only: s_len)
  show ?thesis
    using run loc psb ri idx_sorted idx_dist idx_set idx_len s_dist s_sub amount
    by (intro exI [of _ "take_rows data ps"] exI [of _ ps]) simp
qed

theorem negative_down_sample_over_fraction_witness:
  "getitem \<lparr>row_index = [0, 1, 2], columns = [\<lparr>cname = ''TARGET'', cdtype = Signed 64, cvalues = [IntV 1, IntV 1, IntV 0]\<rparr>]\<rparr> ''TARGET''
     = Inr \<lparr>cname = ''TARGET'', cdtype = Signed 64, cvalues = [IntV 1, IntV 1, IntV 0]\<rparr>
   \<and> 0 < nrow \<lparr>row_index = [0, 1, 2], columns = [\<lparr>cname = ''TARGET'', cdtype = Signed 64, cvalues = [IntV 1, IntV 1, IntV 0]\<rparr>]\<rparr>
   \<and> (2 / 3 :: rat) \<noteq> 1 \<and> 1 < (2 / 3 :: rat) / (1 - 2 / 3)
   \<and> negative_down_sample \<lparr>row_index = [0, 1, 2], columns = [\<lparr>cname = ''TARGET'', cdtype = Signed 64, cvalues = [IntV 1, IntV 1, IntV 0]\<rparr>]\<rparr>
        ''TARGET'' (IntV 1) (IntV 0) (\<lambda>n k. [0..<k]) = Inl ValueError"
proof -
  let ?col = "\<lparr>cname = ''TARGET'', cdtype = Signed 64, cvalues = [IntV 1, IntV 1, IntV 0]\<rparr>"
  let ?d = "\<lparr>row_index = [0, 1, 2], columns = [?col]\<rparr>"
  have h1: "getitem ?d ''TARGET'' = Inr ?col" by (simp add: getitem_def)
  have h2: "0 < nrow ?d" by (simp add: nrow_def)
  have h3: "(2 / 3 :: rat) = of_nat (nrow (select_rows ?d (eq_mask (cvalues ?col) (IntV 1)))) / of_nat (nrow ?d)"
    by (simp add: select_rows_def take_rows_def mask_positions_def eq_mask_def nrow_def)
  have h4: "(2 / 3 :: rat) \<noteq> 1" by simp
  have h5: "1 < (2 / 3 :: rat) / (1 - 2 / 3)" by simp
  from negative_down_sample_over_fraction [OF h1 h2 h3 h4 h5, of "IntV 0" "\<lambda>n k. [0..<k]"] h1 h2 h4 h5
  show ?thesis by blast
qed

theorem negative_down_sample_result_witness:
  "wf_frame \<lparr>row_index = [5, 3, 4], columns = [\<lparr>cname = ''TARGET'', cdtype = Signed 64, cvalues = [IntV 1, IntV 0, IntV 0]\<rparr>]\<rparr>
   \<and> getitem \<lparr>row_index = [5, 3, 4], columns = [\<lparr>cname = ''TARGET'', cdtype = Signed 64, cvalues = [IntV 1, IntV 0, IntV 0]\<rparr>]\<rparr> ''TARGET''
     = Inr \<lparr>cname = ''TARGET'', cdtype = Signed 64, cvalues = [IntV 1, IntV 0, IntV 0]\<rparr>
   \<and> list_all (\<lambda>v. v = IntV 1 \<or> v = IntV 0) [IntV 1, IntV 0, IntV 0]
   \<and> (1 / 3 :: rat) \<noteq> 1 \<and> (1 / 3 :: rat) / (1 - 1 / 3) \<le> 1
   \<and> valid_draw [0] 2 1
   \<and> (\<exists>res. negative_down_sample \<lparr>row_index = [5, 3, 4], columns = [\<lparr>cname = ''TARGET'', cdtype = Signed 64, cvalues = [IntV 1, IntV 0, IntV 0]\<rparr>]\<rparr>
            ''TARGET'' (IntV 1) (IntV 0) (\<lambda>n k. [0..<k]) = Inr res
        \<and> sorted (row_index res) \<and> set (row_index res) = {5, 3} \<and> length (row_index res) = 2)"
proof -
  let ?col = "\<lparr>cname = ''TARGET'', cdtype = Signed 64, cvalues = [IntV 1, IntV 0, IntV 0]\<rparr>"
  let ?d = "\<lparr>row_index = [5, 3, 4], columns = [?col]\<rparr>"
  let ?rs = "\<lambda>(n::nat) k. [0..<k]"
  have wf: "wf_frame ?d" by (simp add: wf_frame_def nrow_def column_names_def)
  have col: "getitem ?d ''TARGET'' = Inr ?col" by (simp add: getitem_def)
  have bin: "list_all (\<lambda>v. v = IntV 1 \<or> v = IntV 0) (cvalues ?col)" by simp
  have ne: "IntV 1 \<noteq> IntV 0" "IntV 1 \<noteq> NaN" "IntV 0 \<noteq> NaN" by simp_all
  have posL: "[5] = row_index (select_rows ?d (eq_mask (cvalues ?col) (IntV 1)))"
    by (simp add: select_rows_def take_rows_def mask_positions_def eq_mask_def)
  have negL: "[3, 4] = row_index (select_rows ?d (eq_mask (cvalues ?col) (IntV 0)))"
    by (simp add: select_rows_def take_rows_def mask_positions_def eq_mask_def)
  have p: "(1 / 3 :: rat) = of_nat (length [5::int]) / of_nat (nrow ?d)"
    by (simp add: nrow_def)
  have nonempty: "0 < nrow ?d" by (simp add: nrow_def)
  have p1: "(1 / 3 :: rat) \<noteq> 1" by simp
  have frac: "(1 / 3 :: rat) / (1 - 1 / 3) \<le> 1" by simp
  have draw: "valid_draw (?rs (length [3, 4 :: int]) (length [5 :: int])) (length [3, 4 :: int]) (length [5 :: int])"
    by (simp add: valid_draw_def)
  have smp: "[3] = map (\<lambda>i. [3, 4 :: int] ! i) (?rs (length [3, 4 :: int]) (length [5 :: int]))"
    by simp
  from negative_down_sample_result [where rs = ?rs, OF wf col bin ne posL negL p nonempty p1 frac draw smp]
  obtain res where r: "negative_down_sample ?d ''TARGET'' (IntV 1) (IntV 0) ?rs = Inr res"
    "sorted (row_index res)" "set (row_index res) = set [5] \<union> set [3]"
    "length (row_index res) = length [5 :: int] + length [3 :: int]"
    by blast
  from r(3,4) have "set (row_index res) = {5, 3}" "length (row_index res) = 2"
    by auto
  with r(1,2) have "\<exists>res. negative_down_sample ?d ''TARGET'' (IntV 1) (IntV 0) ?rs = Inr res
        \<and> sorted (row_index res) \<and> set (row_index res) = {5, 3} \<and> length (row_index res) = 2"
    by blast
  moreover have "valid_draw [0] 2 1" by (simp add: valid_draw_def)
  ultimately show ?thesis
    using wf col bin p1 frac by simp
qed

end
